theory Spec2Isabelle
  imports Main "HOL-Library.Multiset" "HOL-Library.Sublist" "HOL-Library.Monad_Syntax"
    "HOL-Library.Code_Target_Nat"
begin

section \<open>Data model (src/app/page.tsx, type declarations at the end of the file)\<close>

text \<open>
  \<^verbatim>\<open>export type TaskStatus = "pending" | "done"\<close> is a two-valued enum, and
  \<^verbatim>\<open>interface Task { id; title; dueDate; status; createdAt }\<close> a record. The field
  \<^verbatim>\<open>id\<close> is called \<open>id_task\<close> here, since \<open>id\<close> is the identity function of HOL.
  \<^verbatim>\<open>createdAt\<close> holds the value of \<^verbatim>\<open>Date.now()\<close>, a count of milliseconds.
\<close>

datatype TaskStatus = Pending | Done

record Task =
  id_task :: string
  title :: string
  dueDate :: string
  status :: TaskStatus
  createdAt :: nat

datatype TaskFilter = FilterAll | FilterPending | FilterDone

datatype TaskSort = SortDate | SortName

text \<open>
  The component state, one field for each \<^verbatim>\<open>useState\<close> of \<^verbatim>\<open>TaskTracker\<close>. The field
  \<^verbatim>\<open>filter\<close> is called \<open>filter_by\<close>, since \<open>filter\<close> is the list function of HOL.
\<close>

record state =
  tasks :: "Task list"
  search :: string
  filter_by :: TaskFilter
  sortBy :: TaskSort
  isModalOpen :: bool
  editingTask :: "Task option"

text \<open>
  What a handler can signal. The handlers of the source contain no \<^verbatim>\<open>throw\<close>; the only
  exception that the code of the file can meet is the \<^verbatim>\<open>SyntaxError\<close> of \<^verbatim>\<open>JSON.parse\<close>.
  \<open>ValidationError\<close> and \<open>NotFoundError\<close> are the two errors the specification names;
  they are constructors here so that "the operation fails with this error" can be
  stated and compared with what the handlers return.
\<close>

datatype error = SyntaxError | ValidationError | NotFoundError

section \<open>Handlers of the collection\<close>

text \<open>\<^verbatim>\<open>closeModal\<close>: \<^verbatim>\<open>setIsModalOpen(false); setEditingTask(null)\<close>.\<close>

definition closeModal :: "state \<Rightarrow> state" where
  "closeModal st = st\<lparr>isModalOpen := False, editingTask := None\<rparr>"

text \<open>\<^verbatim>\<open>openModal(task?)\<close>: \<^verbatim>\<open>if (task) setEditingTask(task); setIsModalOpen(true)\<close>.\<close>

definition openModal :: "Task option \<Rightarrow> state \<Rightarrow> state" where
  "openModal task st =
     (case task of
        Some t \<Rightarrow> st\<lparr>editingTask := Some t, isModalOpen := True\<rparr>
      | None \<Rightarrow> st\<lparr>isModalOpen := True\<rparr>)"

text \<open>
  The task built in the create branch of \<^verbatim>\<open>handleSaveTask\<close>. \<open>uuid\<close> stands for the value
  of \<^verbatim>\<open>crypto.randomUUID()\<close> and \<open>now\<close> for the value of \<^verbatim>\<open>Date.now()\<close>.
\<close>

definition newTask :: "string \<Rightarrow> nat \<Rightarrow> string \<Rightarrow> string \<Rightarrow> Task" where
  "newTask uuid now ttl due =
     \<lparr>id_task = uuid, title = ttl, dueDate = due, status = Pending, createdAt = now\<rparr>"

text \<open>
  \<^verbatim>\<open>handleSaveTask\<close>, after the form data has been read: \<open>ttl\<close> and \<open>due\<close> are the values
  of the fields \<^verbatim>\<open>title\<close> and \<^verbatim>\<open>dueDate\<close>. With a task being edited, every task that has
  the id of that task gets the new title and due date; otherwise a new task is put in
  front of the collection. Then the modal is closed. Nothing is validated, and nothing
  is thrown.
\<close>

definition handleSaveTask :: "string \<Rightarrow> nat \<Rightarrow> string \<Rightarrow> string \<Rightarrow> state \<Rightarrow> error + state" where
  "handleSaveTask uuid now ttl due st =
     Inr (closeModal
       (case editingTask st of
          Some e \<Rightarrow>
            st\<lparr>tasks := map (\<lambda>t. if id_task t = id_task e
                                  then t\<lparr>title := ttl, dueDate := due\<rparr> else t) (tasks st)\<rparr>
        | None \<Rightarrow> st\<lparr>tasks := newTask uuid now ttl due # tasks st\<rparr>))"

text \<open>\<^verbatim>\<open>toggleStatus(id)\<close>.\<close>

definition toggleStatus :: "string \<Rightarrow> state \<Rightarrow> error + state" where
  "toggleStatus i st =
     Inr (st\<lparr>tasks := map (\<lambda>t. if id_task t = i
                                then t\<lparr>status := (if status t = Pending then Done else Pending)\<rparr>
                                else t) (tasks st)\<rparr>)"

text \<open>\<^verbatim>\<open>deleteTask(id)\<close>.\<close>

definition deleteTask :: "string \<Rightarrow> state \<Rightarrow> error + state" where
  "deleteTask i st = Inr (st\<lparr>tasks := filter (\<lambda>t. id_task t \<noteq> i) (tasks st)\<rparr>)"

text \<open>
  The specification's \<^verbatim>\<open>update(id, title, dueDate)\<close> is \<^verbatim>\<open>handleSaveTask\<close> while a task
  with that id is being edited (only the id of \<^verbatim>\<open>editingTask\<close> is read), and its
  \<^verbatim>\<open>create(title, dueDate)\<close> is \<^verbatim>\<open>handleSaveTask\<close> while no task is being edited.
\<close>

definition editing :: "string \<Rightarrow> state \<Rightarrow> bool" where
  "editing i st = (case editingTask st of Some e \<Rightarrow> id_task e = i | None \<Rightarrow> False)"

definition ids :: "state \<Rightarrow> string set" where
  "ids st = id_task ` set (tasks st)"

section \<open>The form of the modal\<close>

text \<open>
  The due date is entered in \<^verbatim>\<open><input type="date" name="dueDate" required>\<close>. The value
  of such an input is sanitised: it is the empty string unless it is a valid date
  string, which is four or more digits for a year greater than zero, a hyphen, two
  digits for a month from 1 to 12, a hyphen, and two digits for a day of that month.
\<close>

definition is_digit :: "char \<Rightarrow> bool" where
  "is_digit c = (48 \<le> (of_char c :: nat) \<and> (of_char c :: nat) \<le> 57)"

definition nat_of_digits :: "string \<Rightarrow> nat" where
  "nat_of_digits s = foldl (\<lambda>n c. 10 * n + (of_char c - 48)) 0 s"

definition leap_year :: "nat \<Rightarrow> bool" where
  "leap_year y = (y mod 400 = 0 \<or> (y mod 4 = 0 \<and> y mod 100 \<noteq> 0))"

definition days_in_month :: "nat \<Rightarrow> nat \<Rightarrow> nat" where
  "days_in_month y m =
     (if m = 2 then (if leap_year y then 29 else 28)
      else if m = 4 \<or> m = 6 \<or> m = 9 \<or> m = 11 then 30 else 31)"

definition valid_date_string :: "string \<Rightarrow> bool" where
  "valid_date_string s =
     (let n = length s;
          ys = take (n - 6) s; ms = take 2 (drop (n - 5) s); ds = drop (n - 2) s;
          y = nat_of_digits ys; m = nat_of_digits ms; d = nat_of_digits ds
      in 10 \<le> n \<and> s ! (n - 6) = CHR ''-'' \<and> s ! (n - 3) = CHR ''-''
         \<and> list_all is_digit (ys @ ms @ ds)
         \<and> 0 < y \<and> 1 \<le> m \<and> m \<le> 12 \<and> 1 \<le> d \<and> d \<le> days_in_month y m)"

definition date_input_value :: "string \<Rightarrow> string" where
  "date_input_value v = (if valid_date_string v then v else [])"

text \<open>
  Submitting the form. \<open>ttl\<close> is the value of the title input and \<open>entry\<close> what was
  entered as the due date. Both inputs carry the attribute \<^verbatim>\<open>required\<close>, so the browser
  does not fire \<^verbatim>\<open>onSubmit\<close> while one of the two values is the empty string; the title
  is compared as it is, without trimming. Otherwise \<^verbatim>\<open>handleSaveTask\<close> runs on the two
  values.
\<close>

definition submitForm :: "string \<Rightarrow> nat \<Rightarrow> string \<Rightarrow> string \<Rightarrow> state \<Rightarrow> error + state" where
  "submitForm uuid now ttl entry st =
     (let due = date_input_value entry
      in if ttl = [] \<or> due = [] then Inr st else handleSaveTask uuid now ttl due st)"

section \<open>The platform\<close>

text \<open>
  The file calls built-in functions of the browser whose code is not part of the
  repository. They are parameters of the model:
  \<^item> \<open>toLowerCase\<close> is \<^verbatim>\<open>String.prototype.toLowerCase\<close>;
  \<^item> \<open>getTime s\<close> is \<^verbatim>\<open>new Date(s).getTime()\<close>, with \<open>None\<close> for \<^verbatim>\<open>NaN\<close> (an invalid date);
  \<^item> \<open>localeCompare a b\<close> is \<^verbatim>\<open>a.localeCompare(b)\<close>;
  \<^item> \<open>JSON_stringify\<close> and \<open>JSON_parse\<close> are \<^verbatim>\<open>JSON.stringify\<close> and \<^verbatim>\<open>JSON.parse\<close> on
    arrays of tasks, with \<open>None\<close> where \<^verbatim>\<open>JSON.parse\<close> throws;
  \<^item> \<open>engine_order c xs\<close> is the array that \<^verbatim>\<open>xs.sort(c)\<close> gives in this engine when \<open>c\<close>
    is not a consistent comparison function for the elements of \<open>xs\<close>: the language
    standard calls that order implementation-defined.
\<close>

record platform =
  toLowerCase :: "string \<Rightarrow> string"
  getTime :: "string \<Rightarrow> int option"
  localeCompare :: "string \<Rightarrow> string \<Rightarrow> int"
  JSON_stringify :: "Task list \<Rightarrow> string"
  JSON_parse :: "string \<Rightarrow> Task list option"
  engine_order :: "(Task \<Rightarrow> Task \<Rightarrow> int) \<Rightarrow> Task list \<Rightarrow> Task list"

text \<open>
  The environment of the page: whether \<^verbatim>\<open>window\<close> is defined, and the contents of
  \<^verbatim>\<open>localStorage\<close>, a map from keys to strings (\<^verbatim>\<open>getItem\<close> gives \<^verbatim>\<open>null\<close> for a key that
  is not there). The storage is taken to accept every write.
\<close>

record env =
  window_defined :: bool
  localStorage :: "string \<rightharpoonup> string"

section \<open>The store: \<^verbatim>\<open>MOCK_API\<close>\<close>

definition storage_key :: string where
  "storage_key = ''task_tracker_data''"

text \<open>
  \<^verbatim>\<open>getTasks\<close>: the empty array without \<^verbatim>\<open>window\<close>; otherwise
  \<^verbatim>\<open>stored ? JSON.parse(stored) : []\<close>, where \<^verbatim>\<open>null\<close> and the empty string are falsy.
\<close>

definition getTasks :: "platform \<Rightarrow> env \<Rightarrow> error + Task list" where
  "getTasks P e =
     (if \<not> window_defined e then Inr []
      else case localStorage e storage_key of
        None \<Rightarrow> Inr []
      | Some stored \<Rightarrow>
          if stored = [] then Inr []
          else (case JSON_parse P stored of
                  None \<Rightarrow> Inl SyntaxError
                | Some ts \<Rightarrow> Inr ts))"

text \<open>\<^verbatim>\<open>saveTasks\<close>: \<^verbatim>\<open>localStorage.setItem("task_tracker_data", JSON.stringify(tasks))\<close>.\<close>

definition saveTasks :: "platform \<Rightarrow> Task list \<Rightarrow> env \<Rightarrow> env" where
  "saveTasks P ts e = e\<lparr>localStorage := (localStorage e)(storage_key \<mapsto> JSON_stringify P ts)\<rparr>"

section \<open>The effects of the component\<close>

text \<open>The state of the first render.\<close>

definition initial_state :: state where
  "initial_state =
     \<lparr>tasks = [], search = [], filter_by = FilterAll, sortBy = SortDate,
      isModalOpen = False, editingTask = None\<rparr>"

text \<open>The effect that runs once, after the first render: \<^verbatim>\<open>setTasks(MOCK_API.getTasks())\<close>.\<close>

definition load_effect :: "platform \<Rightarrow> env \<Rightarrow> state \<Rightarrow> error + state" where
  "load_effect P e st =
     (case getTasks P e of Inl err \<Rightarrow> Inl err | Inr ts \<Rightarrow> Inr (st\<lparr>tasks := ts\<rparr>))"

text \<open>
  The effect with the dependency \<^verbatim>\<open>[tasks]\<close>:
  \<^verbatim>\<open>if (tasks.length > 0) MOCK_API.saveTasks(tasks)\<close>. It runs after every render in which
  \<^verbatim>\<open>tasks\<close> is a new array; each handler of the collection passes a new array to
  \<^verbatim>\<open>setTasks\<close> (the result of \<^verbatim>\<open>map\<close>, of \<^verbatim>\<open>filter\<close> or an array literal).
\<close>

definition save_effect :: "platform \<Rightarrow> state \<Rightarrow> env \<Rightarrow> env" where
  "save_effect P st e = (if length (tasks st) > 0 then saveTasks P (tasks st) e else e)"

text \<open>
  One mutation of the collection as the page performs it: a handler runs, the
  component renders with the new \<^verbatim>\<open>tasks\<close>, and the save effect runs on that state.
  \<open>Save\<close> is the submit handler of the form, which creates or updates depending on
  \<^verbatim>\<open>editingTask\<close>.
\<close>

datatype mutation =
  Save string nat string string
| Toggle string
| Delete string

fun handler :: "mutation \<Rightarrow> state \<Rightarrow> error + state" where
  "handler (Save uuid now ttl due) st = handleSaveTask uuid now ttl due st"
| "handler (Toggle i) st = toggleStatus i st"
| "handler (Delete i) st = deleteTask i st"

definition step :: "platform \<Rightarrow> mutation \<Rightarrow> state \<times> env \<Rightarrow> error + state \<times> env" where
  "step P m se =
     (case handler m (fst se) of
        Inl err \<Rightarrow> Inl err
      | Inr st \<Rightarrow> Inr (st, save_effect P st (snd se)))"

section \<open>The visible list: \<^verbatim>\<open>filteredTasks\<close>\<close>

text \<open>
  The predicate of \<^verbatim>\<open>tasks.filter\<close>. \<open>q\<close> is the debounced search text; \<^verbatim>\<open>includes\<close> is
  the test for a contiguous substring, \<open>sublist\<close> in HOL.
\<close>

definition matches :: "platform \<Rightarrow> string \<Rightarrow> state \<Rightarrow> Task \<Rightarrow> bool" where
  "matches P q st task =
     (let matchesSearch = sublist (toLowerCase P q) (toLowerCase P (title task));
          matchesFilter =
            (case filter_by st of
               FilterAll \<Rightarrow> True
             | FilterPending \<Rightarrow> status task = Pending
             | FilterDone \<Rightarrow> status task = Done)
      in matchesSearch \<and> matchesFilter)"

text \<open>
  The comparison function given to \<^verbatim>\<open>sort\<close>. With an invalid date the difference of the
  source is \<^verbatim>\<open>NaN\<close>, which \<^verbatim>\<open>sort\<close> reads as \<^verbatim>\<open>+0\<close>.
\<close>

definition compareTasks :: "platform \<Rightarrow> TaskSort \<Rightarrow> Task \<Rightarrow> Task \<Rightarrow> int" where
  "compareTasks P s a b =
     (if s = SortDate
      then (case (getTime P (dueDate a), getTime P (dueDate b)) of
              (Some x, Some y) \<Rightarrow> x - y
            | _ \<Rightarrow> 0)
      else localeCompare P (title a) (title b))"

text \<open>
  A consistent comparison function on the values of \<open>S\<close>, as the language standard
  defines it: a total preorder, read off the sign of the result.
\<close>

definition consistent :: "('a \<Rightarrow> 'a \<Rightarrow> int) \<Rightarrow> 'a set \<Rightarrow> bool" where
  "consistent c S =
     (\<forall>a\<in>S. \<forall>b\<in>S. \<forall>d\<in>S.
        c a a = 0 \<and> (c a b < 0 \<longleftrightarrow> 0 < c b a) \<and> (c a b \<le> 0 \<and> c b d \<le> 0 \<longrightarrow> c a d \<le> 0))"

text \<open>
  The stable sort by insertion from the right. For a consistent comparison function
  it is the one list that is ordered and stable (\<open>sort_cmp_unique\<close> below).
\<close>

fun insert_cmp :: "('a \<Rightarrow> 'a \<Rightarrow> int) \<Rightarrow> 'a \<Rightarrow> 'a list \<Rightarrow> 'a list" where
  "insert_cmp c x [] = [x]"
| "insert_cmp c x (y # ys) = (if c x y \<le> 0 then x # y # ys else y # insert_cmp c x ys)"

fun sort_cmp :: "('a \<Rightarrow> 'a \<Rightarrow> int) \<Rightarrow> 'a list \<Rightarrow> 'a list" where
  "sort_cmp c [] = []"
| "sort_cmp c (x # xs) = insert_cmp c x (sort_cmp c xs)"

text \<open>
  \<^verbatim>\<open>Array.prototype.sort(comparefn)\<close>. The language standard (since ES2019) asks for a
  stable sort and fixes the result when \<^verbatim>\<open>comparefn\<close> is a consistent comparison
  function for the elements. When it is not (here: when a due date is no date, so
  that comparisons are \<^verbatim>\<open>NaN\<close>), the order is the engine's own.
\<close>

definition array_sort :: "platform \<Rightarrow> (Task \<Rightarrow> Task \<Rightarrow> int) \<Rightarrow> Task list \<Rightarrow> Task list" where
  "array_sort P c xs = (if consistent c (set xs) then sort_cmp c xs else engine_order P c xs)"

definition filteredTasks :: "platform \<Rightarrow> string \<Rightarrow> state \<Rightarrow> Task list" where
  "filteredTasks P q st =
     array_sort P (compareTasks P (sortBy st)) (filter (matches P q st) (tasks st))"

text \<open>What "ascending" means for each sort key.\<close>

definition date_le :: "platform \<Rightarrow> Task \<Rightarrow> Task \<Rightarrow> bool" where
  "date_le P a b =
     (case (getTime P (dueDate a), getTime P (dueDate b)) of
        (Some x, Some y) \<Rightarrow> x \<le> y
      | _ \<Rightarrow> False)"

definition name_le :: "platform \<Rightarrow> Task \<Rightarrow> Task \<Rightarrow> bool" where
  "name_le P a b = (localeCompare P (title a) (title b) \<le> 0)"

section \<open>A concrete platform\<close>

text \<open>
  One instance of the platform, on which the theorems below are exercised: ASCII
  lower-casing, dates in the form \<^verbatim>\<open>YYYY-MM-DD\<close> (what an \<^verbatim>\<open>input\<close> of type \<^verbatim>\<open>date\<close> gives)
  read as midnight UTC, comparison of strings by character code, the JSON text of an
  array of tasks (quotes and backslashes escaped) with its reader, and the order in
  which the V8 engine leaves a short array.
\<close>

definition lower_char :: "char \<Rightarrow> char" where
  "lower_char c =
     (let n = (of_char c :: nat) in if 65 \<le> n \<and> n \<le> 90 then char_of (n + 32) else c)"

definition ascii_lower :: "string \<Rightarrow> string" where
  "ascii_lower s = map lower_char s"

text \<open>Days from 1970-01-01 to a date of the proleptic Gregorian calendar.\<close>

definition days_from_civil :: "int \<Rightarrow> int \<Rightarrow> int \<Rightarrow> int" where
  "days_from_civil y m d =
     (let y' = (if m \<le> 2 then y - 1 else y);
          era = y' div 400;
          yoe = y' - era * 400;
          doy = (153 * (if 2 < m then m - 3 else m + 9) + 2) div 5 + d - 1;
          doe = yoe * 365 + yoe div 4 - yoe div 100 + doy
      in era * 146097 + doe - 719468)"

definition iso_date_time :: "string \<Rightarrow> int option" where
  "iso_date_time s =
     (let ys = take 4 s; ms = take 2 (drop 5 s); ds = drop 8 s;
          m = int (nat_of_digits ms); d = int (nat_of_digits ds)
      in if length s = 10 \<and> s ! 4 = CHR ''-'' \<and> s ! 7 = CHR ''-''
            \<and> list_all is_digit (ys @ ms @ ds)
            \<and> 1 \<le> m \<and> m \<le> 12 \<and> 1 \<le> d \<and> d \<le> 31
         then Some (days_from_civil (int (nat_of_digits ys)) m d * 86400000)
         else None)"

fun code_compare :: "string \<Rightarrow> string \<Rightarrow> int" where
  "code_compare [] [] = 0"
| "code_compare [] (y # ys) = - 1"
| "code_compare (x # xs) [] = 1"
| "code_compare (x # xs) (y # ys) =
     (if (of_char x :: nat) < of_char y then - 1
      else if (of_char y :: nat) < of_char x then 1
      else code_compare xs ys)"

definition dquote :: char where
  "dquote = CHR 0x22"

definition backslash :: char where
  "backslash = CHR 0x5C"

fun escape :: "string \<Rightarrow> string" where
  "escape [] = []"
| "escape (c # cs) =
     (if c = dquote \<or> c = backslash then backslash # c # escape cs else c # escape cs)"

definition json_string :: "string \<Rightarrow> string" where
  "json_string s = dquote # escape s @ [dquote]"

fun json_nat :: "nat \<Rightarrow> string" where
  "json_nat n =
     (if n < 10 then [char_of (48 + n)] else json_nat (n div 10) @ [char_of (48 + n mod 10)])"

declare json_nat.simps [simp del]

definition status_name :: "TaskStatus \<Rightarrow> string" where
  "status_name s = (case s of Pending \<Rightarrow> ''pending'' | Done \<Rightarrow> ''done'')"

definition json_field :: "string \<Rightarrow> string" where
  "json_field k = json_string k @ '':''"

definition json_task :: "Task \<Rightarrow> string" where
  "json_task t =
     ''{'' @ json_field ''id'' @ json_string (id_task t)
     @ '','' @ json_field ''title'' @ json_string (title t)
     @ '','' @ json_field ''dueDate'' @ json_string (dueDate t)
     @ '','' @ json_field ''status'' @ json_string (status_name (status t))
     @ '','' @ json_field ''createdAt'' @ json_nat (createdAt t) @ ''}''"

fun json_items :: "Task list \<Rightarrow> string" where
  "json_items [] = []"
| "json_items [t] = json_task t"
| "json_items (t # ts) = json_task t @ '','' @ json_items ts"

definition json_tasks :: "Task list \<Rightarrow> string" where
  "json_tasks ts = ''['' @ json_items ts @ '']''"

fun expect :: "string \<Rightarrow> string \<Rightarrow> string option" where
  "expect [] s = Some s"
| "expect (p # ps) [] = None"
| "expect (p # ps) (c # cs) = (if p = c then expect ps cs else None)"

fun read_chars :: "string \<Rightarrow> (string \<times> string) option" where
  "read_chars [] = None"
| "read_chars (c # cs) =
     (if c = dquote then Some ([], cs)
      else if c = backslash then
        (case cs of
           [] \<Rightarrow> None
         | d # ds \<Rightarrow> map_option (\<lambda>(r, rest). (d # r, rest)) (read_chars ds))
      else map_option (\<lambda>(r, rest). (c # r, rest)) (read_chars cs))"

definition read_string :: "string \<Rightarrow> (string \<times> string) option" where
  "read_string s = do { s1 \<leftarrow> expect [dquote] s; read_chars s1 }"

definition read_nat :: "string \<Rightarrow> (nat \<times> string) option" where
  "read_nat s =
     (let ds = takeWhile is_digit s
      in if ds = [] then None else Some (nat_of_digits ds, dropWhile is_digit s))"

definition read_status :: "string \<Rightarrow> TaskStatus option" where
  "read_status s =
     (if s = ''pending'' then Some Pending else if s = ''done'' then Some Done else None)"

definition read_task :: "string \<Rightarrow> (Task \<times> string) option" where
  "read_task s = do {
     s1 \<leftarrow> expect (''{'' @ json_field ''id'') s;
     (i, s2) \<leftarrow> read_string s1;
     s3 \<leftarrow> expect ('','' @ json_field ''title'') s2;
     (ttl, s4) \<leftarrow> read_string s3;
     s5 \<leftarrow> expect ('','' @ json_field ''dueDate'') s4;
     (due, s6) \<leftarrow> read_string s5;
     s7 \<leftarrow> expect ('','' @ json_field ''status'') s6;
     (sn, s8) \<leftarrow> read_string s7;
     stat \<leftarrow> read_status sn;
     s9 \<leftarrow> expect ('','' @ json_field ''createdAt'') s8;
     (n, s10) \<leftarrow> read_nat s9;
     s11 \<leftarrow> expect ''}'' s10;
     Some (\<lparr>id_task = i, title = ttl, dueDate = due, status = stat, createdAt = n\<rparr>, s11)
   }"

text \<open>
  The items of the array, one task at a time. The first argument bounds the number
  of items by the length of the text, of which every item takes a part.
\<close>

fun read_items :: "nat \<Rightarrow> string \<Rightarrow> Task list option" where
  "read_items 0 s = None"
| "read_items (Suc k) s = do {
     (t, s1) \<leftarrow> read_task s;
     if s1 = '']'' then Some [t]
     else do { s2 \<leftarrow> expect '','' s1; ts \<leftarrow> read_items k s2; Some (t # ts) }
   }"

definition read_tasks :: "string \<Rightarrow> Task list option" where
  "read_tasks s =
     (if s = ''[]'' then Some []
      else do { s1 \<leftarrow> expect ''['' s; read_items (length s1) s1 })"

text \<open>
  The order of the V8 engine for an array of fewer than 64 elements: it takes the
  longest run at the front that is ascending, or strictly descending and then
  reversed, and inserts each further element at the place a binary search finds.
\<close>

fun run_rest :: "('a \<Rightarrow> 'a \<Rightarrow> int) \<Rightarrow> bool \<Rightarrow> 'a \<Rightarrow> 'a list \<Rightarrow> nat" where
  "run_rest c descending previous [] = 0"
| "run_rest c descending previous (x # xs) =
     (if (if descending then 0 \<le> c x previous else c x previous < 0) then 0
      else Suc (run_rest c descending x xs))"

definition count_and_make_run :: "('a \<Rightarrow> 'a \<Rightarrow> int) \<Rightarrow> 'a list \<Rightarrow> 'a list \<times> 'a list" where
  "count_and_make_run c xs =
     (case xs of
        x0 # x1 # rest \<Rightarrow>
          (let descending = (c x1 x0 < 0);
               n = 2 + run_rest c descending x1 rest
           in ((if descending then rev (take n xs) else take n xs), drop n xs))
      | _ \<Rightarrow> (xs, []))"

function binary_position :: "('a \<Rightarrow> 'a \<Rightarrow> int) \<Rightarrow> 'a \<Rightarrow> 'a list \<Rightarrow> nat \<Rightarrow> nat \<Rightarrow> nat" where
  "binary_position c pivot ys left right =
     (if left < right
      then (let mid = left + (right - left) div 2
            in if c pivot (ys ! mid) < 0
               then binary_position c pivot ys left mid
               else binary_position c pivot ys (mid + 1) right)
      else left)"
  by pat_completeness auto
termination
  by (relation "measure (\<lambda>(c, pivot, ys, left, right). right - left)") auto

declare binary_position.simps [simp del]

definition binary_insert :: "('a \<Rightarrow> 'a \<Rightarrow> int) \<Rightarrow> 'a list \<Rightarrow> 'a \<Rightarrow> 'a list" where
  "binary_insert c ys pivot =
     (let k = binary_position c pivot ys 0 (length ys) in take k ys @ pivot # drop k ys)"

definition v8_order :: "('a \<Rightarrow> 'a \<Rightarrow> int) \<Rightarrow> 'a list \<Rightarrow> 'a list" where
  "v8_order c xs = (case count_and_make_run c xs of (run, rest) \<Rightarrow> foldl (binary_insert c) run rest)"

definition browser :: platform where
  "browser =
     \<lparr>toLowerCase = ascii_lower, getTime = iso_date_time, localeCompare = code_compare,
      JSON_stringify = json_tasks, JSON_parse = read_tasks, engine_order = v8_order\<rparr>"

text \<open>The tasks of the specification's scenarios.\<close>

definition task_report :: Task where
  "task_report =
     \<lparr>id_task = ''a1'', title = ''Write report'', dueDate = ''2025-01-10'',
      status = Pending, createdAt = 1735689600000\<rparr>"

definition task_milk :: Task where
  "task_milk =
     \<lparr>id_task = ''b2'', title = ''Buy milk'', dueDate = ''2025-01-05'',
      status = Done, createdAt = 1735689700000\<rparr>"

definition task_alpha :: Task where
  "task_alpha =
     \<lparr>id_task = ''c3'', title = ''Alpha task'', dueDate = ''2025-01-20'',
      status = Pending, createdAt = 1735689800000\<rparr>"

definition task_beta :: Task where
  "task_beta =
     \<lparr>id_task = ''d4'', title = ''Buy milk'', dueDate = ''2025-01-05'',
      status = Pending, createdAt = 1735689900000\<rparr>"

definition task_bank :: Task where
  "task_bank =
     \<lparr>id_task = ''x9'', title = ''Call bank'', dueDate = ''tomorrow'',
      status = Pending, createdAt = 1735690000000\<rparr>"

definition state_of :: "Task list \<Rightarrow> state" where
  "state_of ts = initial_state\<lparr>tasks := ts\<rparr>"

definition empty_env :: env where
  "empty_env = \<lparr>window_defined = True, localStorage = Map.empty\<rparr>"

section \<open>Properties of the handlers\<close>

lemma tasks_closeModal: "tasks (closeModal st) = tasks st"
  by (simp add: closeModal_def)

lemma map_absent_id:
  "i \<notin> id_task ` set ts \<Longrightarrow> map (\<lambda>t. if id_task t = i then f t else t) ts = ts"
  by (induction ts) auto

lemma filter_absent_id:
  "i \<notin> id_task ` set ts \<Longrightarrow> filter (\<lambda>t. id_task t \<noteq> i) ts = ts"
  by (induction ts) auto

lemma toggleStatus_absent: "i \<notin> ids st \<Longrightarrow> toggleStatus i st = Inr st"
  by (simp add: toggleStatus_def ids_def map_absent_id)

lemma handleSaveTask_absent:
  assumes "i \<notin> ids st" and "editing i st"
  shows "handleSaveTask uuid now ttl due st = Inr (closeModal st)"
proof -
  from assms(2) obtain e where e: "editingTask st = Some e" "id_task e = i"
    by (auto simp: editing_def split: option.splits)
  then show ?thesis
    using assms(1) by (simp add: handleSaveTask_def ids_def map_absent_id)
qed

lemmas scenario_defs =
  state_of_def initial_state_def task_report_def task_milk_def task_alpha_def task_beta_def
  task_bank_def

subsection \<open>Validation of the form (C2)\<close>

lemma valid_date_string_nonempty: "valid_date_string s \<Longrightarrow> s \<noteq> []"
  by (auto simp: valid_date_string_def Let_def)

lemma date_input_value_valid: "valid_date_string v \<Longrightarrow> date_input_value v = v"
  by (simp add: date_input_value_def)

lemma date_input_value_invalid: "\<not> valid_date_string v \<Longrightarrow> date_input_value v = []"
  by (simp add: date_input_value_def)

lemma valid_date_string_examples:
  "valid_date_string ''2025-01-01'' \<and> valid_date_string ''2024-02-29''
   \<and> \<not> valid_date_string ''2025-02-29'' \<and> \<not> valid_date_string ''2025-13-01''
   \<and> \<not> valid_date_string ''tomorrow'' \<and> \<not> valid_date_string []"
  by code_simp

text \<open>
  Against C2: a title of three spaces is empty after trimming, yet submitting it with a
  valid due date creates a task with that title, and no error is signalled.
\<close>

theorem validation_counterexample:
  "submitForm ''u1'' 5 ''   '' ''2025-01-01'' (state_of [])
     = Inr (state_of [newTask ''u1'' 5 ''   '' ''2025-01-01''])
   \<and> submitForm ''u1'' 5 ''   '' ''2025-01-01'' (state_of []) \<noteq> Inl ValidationError
   \<and> tasks (state_of [newTask ''u1'' 5 ''   '' ''2025-01-01'']) \<noteq> tasks (state_of [])"
proof -
  have "date_input_value ''2025-01-01'' = ''2025-01-01''"
    using valid_date_string_examples by (simp add: date_input_value_valid)
  then show ?thesis
    by (simp add: submitForm_def handleSaveTask_def closeModal_def scenario_defs)
qed

text \<open>
  C2, as the code has it: for every title that is the empty string, and for every due
  date that is not a valid calendar date (the value of the date input is then empty),
  the \<^verbatim>\<open>required\<close> attributes keep the form from being submitted: \<^verbatim>\<open>handleSaveTask\<close> does
  not run, no task is added and the state, with it the collection, is unchanged; the
  code raises no error of its own. The title is not trimmed: with a title that is not
  the empty string, blank or not, a valid due date and no task being edited, the
  submission succeeds and puts a task with exactly this title and due date in front.
\<close>

theorem submitForm_required:
  "(ttl = [] \<or> \<not> valid_date_string entry \<longrightarrow> submitForm uuid now ttl entry st = Inr st)
   \<and> (ttl \<noteq> [] \<and> valid_date_string entry \<and> editingTask st = None \<longrightarrow>
        (\<exists>st'. submitForm uuid now ttl entry st = Inr st'
           \<and> tasks st' = newTask uuid now ttl entry # tasks st))"
proof -
  have blocked: "submitForm uuid now ttl entry st = Inr st"
    if "ttl = [] \<or> \<not> valid_date_string entry"
  proof (cases "valid_date_string entry")
    case True
    with that have "ttl = []" by simp
    then show ?thesis by (simp add: submitForm_def)
  next
    case False
    then show ?thesis by (simp add: submitForm_def date_input_value_invalid)
  qed
  have created: "\<exists>st'. submitForm uuid now ttl entry st = Inr st'
           \<and> tasks st' = newTask uuid now ttl entry # tasks st"
    if "ttl \<noteq> []" "valid_date_string entry" "editingTask st = None"
  proof -
    from that(2) have "date_input_value entry = entry" "entry \<noteq> []"
      by (simp_all add: date_input_value_valid valid_date_string_nonempty)
    with that(1,3) show ?thesis
      by (simp add: submitForm_def handleSaveTask_def closeModal_def)
  qed
  from blocked created show ?thesis by blast
qed

text \<open>
  The theorem of C2 at an empty title, at a due date that is no date, and at a title of
  three spaces.
\<close>

theorem submitForm_required_witness:
  "submitForm ''u1'' 5 [] ''2025-01-01'' (state_of [task_report]) = Inr (state_of [task_report])
   \<and> \<not> valid_date_string ''tomorrow''
   \<and> submitForm ''u1'' 5 ''Call bank'' ''tomorrow'' (state_of [task_report])
       = Inr (state_of [task_report])
   \<and> ''   '' \<noteq> [] \<and> valid_date_string ''2025-01-01''
   \<and> editingTask (state_of [task_report]) = None
   \<and> (\<exists>st'. submitForm ''u1'' 5 ''   '' ''2025-01-01'' (state_of [task_report]) = Inr st'
         \<and> tasks st' = [newTask ''u1'' 5 ''   '' ''2025-01-01'', task_report])"
proof -
  have e: "editingTask (state_of [task_report]) = None"
    by (simp add: scenario_defs)
  have t: "tasks (state_of [task_report]) = [task_report]"
    by (simp add: scenario_defs)
  have v: "valid_date_string ''2025-01-01''" and n: "\<not> valid_date_string ''tomorrow''"
    using valid_date_string_examples by simp_all
  from submitForm_required [of "[]" "''2025-01-01''" "''u1''" 5 "state_of [task_report]"]
    submitForm_required [of "''Call bank''" "''tomorrow''" "''u1''" 5 "state_of [task_report]"]
    submitForm_required [of "''   ''" "''2025-01-01''" "''u1''" 5 "state_of [task_report]"]
    e t v n
  show ?thesis by simp
qed

subsection \<open>Ids that are not in the collection (C3, C10)\<close>

text \<open>
  Against C3: with an id that no task has, \<^verbatim>\<open>toggleStatus\<close> and the update branch of
  \<^verbatim>\<open>handleSaveTask\<close> return normally, not with \<open>NotFoundError\<close>.
\<close>

theorem not_found_counterexample:
  "''zz'' \<notin> ids (state_of [task_report])
   \<and> toggleStatus ''zz'' (state_of [task_report]) = Inr (state_of [task_report])
   \<and> toggleStatus ''zz'' (state_of [task_report]) \<noteq> Inl NotFoundError
   \<and> editing ''b2'' (openModal (Some task_milk) (state_of [task_report]))
   \<and> ''b2'' \<notin> ids (openModal (Some task_milk) (state_of [task_report]))
   \<and> handleSaveTask ''u'' 7 ''Buy oat milk'' ''2025-02-01''
        (openModal (Some task_milk) (state_of [task_report])) = Inr (state_of [task_report])
   \<and> handleSaveTask ''u'' 7 ''Buy oat milk'' ''2025-02-01''
        (openModal (Some task_milk) (state_of [task_report])) \<noteq> Inl NotFoundError"
  by (simp add: toggleStatus_def handleSaveTask_def closeModal_def openModal_def editing_def
      ids_def scenario_defs)

text \<open>
  C3, as the code has it: for an id that is not in the collection, \<^verbatim>\<open>toggleStatus(id)\<close>
  and the update of the task with that id do not fail; they return a state whose
  collection is the one before.
\<close>

theorem absent_id_no_error:
  assumes "i \<notin> ids st"
  shows "(\<exists>st'. toggleStatus i st = Inr st' \<and> tasks st' = tasks st)
       \<and> (editing i st \<longrightarrow>
            (\<exists>st'. handleSaveTask uuid now ttl due st = Inr st' \<and> tasks st' = tasks st))"
  using assms by (simp add: toggleStatus_absent handleSaveTask_absent tasks_closeModal)

text \<open>The theorem of C3 while a task that is no longer in the collection is being edited.\<close>

theorem absent_id_no_error_witness:
  "''b2'' \<notin> ids (openModal (Some task_milk) (state_of [task_report]))
   \<and> editing ''b2'' (openModal (Some task_milk) (state_of [task_report]))
   \<and> (\<exists>st'. toggleStatus ''b2'' (openModal (Some task_milk) (state_of [task_report])) = Inr st'
         \<and> tasks st' = [task_report])
   \<and> (\<exists>st'. handleSaveTask ''u'' 7 ''Buy oat milk'' ''2025-02-01''
                (openModal (Some task_milk) (state_of [task_report])) = Inr st'
         \<and> tasks st' = [task_report])"
proof -
  let ?S = "openModal (Some task_milk) (state_of [task_report])"
  have h: "''b2'' \<notin> ids ?S"
    by (simp add: ids_def openModal_def scenario_defs)
  have e: "editing ''b2'' ?S"
    by (simp add: editing_def openModal_def scenario_defs)
  have t: "tasks ?S = [task_report]"
    by (simp add: openModal_def scenario_defs)
  from absent_id_no_error [OF h, of "''u''" 7 "''Buy oat milk''" "''2025-02-01''"] h e t
  show ?thesis by simp
qed

text \<open>
  C10: for an id that is not in the collection, \<^verbatim>\<open>toggleStatus(id)\<close> returns normally with
  the state it was given, and the update of the task with that id returns normally
  with that state and the modal closed; the collection is exactly the one before.
\<close>

theorem absent_id_noop:
  assumes "i \<notin> ids st"
  shows "toggleStatus i st = Inr st
       \<and> (editing i st \<longrightarrow> handleSaveTask uuid now ttl due st = Inr (closeModal st))
       \<and> tasks (closeModal st) = tasks st"
  using assms by (simp add: toggleStatus_absent handleSaveTask_absent tasks_closeModal)

text \<open>The theorem of C10 on the same input.\<close>

theorem absent_id_noop_witness:
  "''b2'' \<notin> ids (openModal (Some task_milk) (state_of [task_report]))
   \<and> editing ''b2'' (openModal (Some task_milk) (state_of [task_report]))
   \<and> toggleStatus ''b2'' (openModal (Some task_milk) (state_of [task_report]))
       = Inr (openModal (Some task_milk) (state_of [task_report]))
   \<and> handleSaveTask ''u'' 7 ''Buy oat milk'' ''2025-02-01''
        (openModal (Some task_milk) (state_of [task_report])) = Inr (state_of [task_report])"
proof -
  let ?S = "openModal (Some task_milk) (state_of [task_report])"
  have h: "''b2'' \<notin> ids ?S"
    by (simp add: ids_def openModal_def scenario_defs)
  have e: "editing ''b2'' ?S"
    by (simp add: editing_def openModal_def scenario_defs)
  have c: "closeModal ?S = state_of [task_report]"
    by (simp add: closeModal_def openModal_def scenario_defs)
  from absent_id_noop [OF h, of "''u''" 7 "''Buy oat milk''" "''2025-02-01''"] h e c
  show ?thesis by simp
qed

subsection \<open>Create (C4)\<close>




subsection \<open>Update (C5)\<close>

text \<open>
  C5: while the task with id \<open>i\<close> is being edited, \<^verbatim>\<open>handleSaveTask\<close> succeeds and keeps
  the length of the collection; at every position the task keeps its id, status and
  creation time; a task with id \<open>i\<close> gets the new title and due date, where it stands;
  a task with another id is unchanged.
\<close>

theorem update_frame:
  assumes "editing i st"
  shows "\<exists>st'. handleSaveTask uuid now ttl due st = Inr st'
      \<and> length (tasks st') = length (tasks st)
      \<and> (\<forall>k < length (tasks st).
            id_task (tasks st' ! k) = id_task (tasks st ! k)
          \<and> status (tasks st' ! k) = status (tasks st ! k)
          \<and> createdAt (tasks st' ! k) = createdAt (tasks st ! k)
          \<and> (id_task (tasks st ! k) = i \<longrightarrow>
                title (tasks st' ! k) = ttl \<and> dueDate (tasks st' ! k) = due)
          \<and> (id_task (tasks st ! k) \<noteq> i \<longrightarrow> tasks st' ! k = tasks st ! k))"
proof -
  from assms obtain e where e: "editingTask st = Some e" "id_task e = i"
    by (auto simp: editing_def split: option.splits)
  let ?f = "\<lambda>t. if id_task t = i then t\<lparr>title := ttl, dueDate := due\<rparr> else t"
  have "handleSaveTask uuid now ttl due st = Inr (closeModal (st\<lparr>tasks := map ?f (tasks st)\<rparr>))"
    using e by (simp add: handleSaveTask_def)
  moreover have "tasks (closeModal (st\<lparr>tasks := map ?f (tasks st)\<rparr>)) = map ?f (tasks st)"
    by (simp add: closeModal_def)
  ultimately show ?thesis by simp
qed

text \<open>The theorem of C5 where the second of two tasks is edited.\<close>

theorem update_frame_witness:
  "editing ''b2'' (openModal (Some task_milk) (state_of [task_report, task_milk]))
   \<and> (\<exists>st'. handleSaveTask ''u'' 7 ''Buy oat milk'' ''2025-02-01''
                (openModal (Some task_milk) (state_of [task_report, task_milk])) = Inr st'
         \<and> tasks st' = [task_report, task_milk\<lparr>title := ''Buy oat milk'', dueDate := ''2025-02-01''\<rparr>])"
proof -
  let ?S = "openModal (Some task_milk) (state_of [task_report, task_milk])"
  have h: "editing ''b2'' ?S"
    by (simp add: editing_def openModal_def scenario_defs)
  from update_frame [OF h, of "''u''" 7 "''Buy oat milk''" "''2025-02-01''"]
  show ?thesis
    using h by (simp add: handleSaveTask_def openModal_def closeModal_def scenario_defs)
qed

subsection \<open>Toggle (C6)\<close>

text \<open>
  C6: \<^verbatim>\<open>toggleStatus(id)\<close> succeeds, and a second \<^verbatim>\<open>toggleStatus(id)\<close> on its result gives
  back the state before the first, so every status is the original one. One
  application turns the status of a task with that id from pending to done and from
  done to pending, the only two values of the type.
\<close>

theorem toggleStatus_involution:
  "\<exists>st1. toggleStatus i st = Inr st1
      \<and> toggleStatus i st1 = Inr st
      \<and> length (tasks st1) = length (tasks st)
      \<and> (\<forall>k < length (tasks st). id_task (tasks st ! k) = i \<longrightarrow>
            (status (tasks st ! k) = Pending \<longrightarrow> status (tasks st1 ! k) = Done)
          \<and> (status (tasks st ! k) = Done \<longrightarrow> status (tasks st1 ! k) = Pending))"
proof -
  let ?f = "\<lambda>t. if id_task t = i
                then t\<lparr>status := (if status t = Pending then Done else Pending)\<rparr> else t"
  have ff: "?f (?f t) = t" for t
    by (cases "status t") auto
  have "map ?f (map ?f (tasks st)) = tasks st"
    unfolding map_map comp_def ff by simp
  then have "toggleStatus i (st\<lparr>tasks := map ?f (tasks st)\<rparr>) = Inr st"
    by (simp add: toggleStatus_def)
  moreover have "\<forall>k < length (tasks st). id_task (tasks st ! k) = i \<longrightarrow>
            (status (tasks st ! k) = Pending \<longrightarrow> status (map ?f (tasks st) ! k) = Done)
          \<and> (status (tasks st ! k) = Done \<longrightarrow> status (map ?f (tasks st) ! k) = Pending)"
    by simp
  ultimately show ?thesis
    by (simp add: toggleStatus_def)
qed

text \<open>The theorem of C6 on a task that is done.\<close>

theorem toggleStatus_involution_witness:
  "1 < length (tasks (state_of [task_report, task_milk]))
   \<and> id_task (tasks (state_of [task_report, task_milk]) ! 1) = ''b2''
   \<and> status (tasks (state_of [task_report, task_milk]) ! 1) = Done
   \<and> (\<exists>st1. toggleStatus ''b2'' (state_of [task_report, task_milk]) = Inr st1
         \<and> status (tasks st1 ! 1) = Pending
         \<and> toggleStatus ''b2'' st1 = Inr (state_of [task_report, task_milk]))"
proof -
  let ?S = "state_of [task_report, task_milk]"
  have h: "1 < length (tasks ?S) \<and> id_task (tasks ?S ! 1) = ''b2'' \<and> status (tasks ?S ! 1) = Done"
    by (simp add: scenario_defs)
  from toggleStatus_involution [of "''b2''" ?S] h show ?thesis
    by blast
qed

subsection \<open>Delete (C7)\<close>

text \<open>
  C7: \<^verbatim>\<open>deleteTask(id)\<close> succeeds for every state and every id; afterwards no task of the
  collection has that id, so a lookup finds nothing; and when no task had that id, the
  state, and with it the collection, is the one before.
\<close>

theorem deleteTask_removes:
  "\<exists>st'. deleteTask i st = Inr st'
      \<and> i \<notin> ids st'
      \<and> find (\<lambda>t. id_task t = i) (tasks st') = None
      \<and> (i \<notin> ids st \<longrightarrow> st' = st)"
  by (auto simp: deleteTask_def ids_def find_None_iff filter_absent_id)

text \<open>The theorem of C7 at an id that is absent, beside a deletion that removes a task.\<close>

theorem deleteTask_removes_witness:
  "''zz'' \<notin> ids (state_of [task_report, task_milk])
   \<and> deleteTask ''zz'' (state_of [task_report, task_milk]) = Inr (state_of [task_report, task_milk])
   \<and> ''b2'' \<in> ids (state_of [task_report, task_milk])
   \<and> deleteTask ''b2'' (state_of [task_report, task_milk]) = Inr (state_of [task_report])"
  using deleteTask_removes [of "''zz''" "state_of [task_report, task_milk]"]
  by (simp add: deleteTask_def ids_def state_of_def initial_state_def task_report_def task_milk_def)

section \<open>Sorting with a comparison function\<close>

lemma set_insert_cmp: "set (insert_cmp c x xs) = insert x (set xs)"
  by (induction xs) auto

lemma mset_insert_cmp: "mset (insert_cmp c x xs) = add_mset x (mset xs)"
  by (induction xs) auto

lemma mset_sort_cmp: "mset (sort_cmp c xs) = mset xs"
  by (induction xs) (simp_all add: mset_insert_cmp)

lemma set_sort_cmp: "set (sort_cmp c xs) = set xs"
  by (induction xs) (simp_all add: set_insert_cmp)

lemma consistent_refl: "consistent c S \<Longrightarrow> a \<in> S \<Longrightarrow> c a a = 0"
  unfolding consistent_def by blast

lemma consistent_flip: "consistent c S \<Longrightarrow> a \<in> S \<Longrightarrow> b \<in> S \<Longrightarrow> \<not> c a b \<le> 0 \<Longrightarrow> c b a \<le> 0"
  unfolding consistent_def by (metis less_le_not_le linear)

lemma consistent_trans:
  "consistent c S \<Longrightarrow> a \<in> S \<Longrightarrow> b \<in> S \<Longrightarrow> d \<in> S \<Longrightarrow> c a b \<le> 0 \<Longrightarrow> c b d \<le> 0 \<Longrightarrow> c a d \<le> 0"
  unfolding consistent_def by blast

lemma consistent_sym: "consistent c S \<Longrightarrow> a \<in> S \<Longrightarrow> b \<in> S \<Longrightarrow> c a b = 0 \<Longrightarrow> c b a = 0"
  unfolding consistent_def by (metis less_irrefl linorder_neqE_linordered_idom)

lemma consistent_subset: "consistent c S \<Longrightarrow> T \<subseteq> S \<Longrightarrow> consistent c T"
  unfolding consistent_def by blast

lemma sorted_insert_cmp:
  assumes "consistent c S" "x \<in> S" "set xs \<subseteq> S" "sorted_wrt (\<lambda>a b. c a b \<le> 0) xs"
  shows "sorted_wrt (\<lambda>a b. c a b \<le> 0) (insert_cmp c x xs)"
  using assms(3,4)
proof (induction xs)
  case Nil
  then show ?case by simp
next
  case (Cons y ys)
  show ?case
  proof (cases "c x y \<le> 0")
    case True
    have "c x z \<le> 0" if "z \<in> set ys" for z
      using consistent_trans[OF assms(1), of x y z] assms(2) Cons.prems True that by auto
    with True Cons.prems show ?thesis by simp
  next
    case False
    then have "c y x \<le> 0"
      using consistent_flip[OF assms(1), of x y] assms(2) Cons.prems by simp
    with False Cons show ?thesis by (auto simp: set_insert_cmp)
  qed
qed

lemma sorted_sort_cmp:
  "consistent c S \<Longrightarrow> set xs \<subseteq> S \<Longrightarrow> sorted_wrt (\<lambda>a b. c a b \<le> 0) (sort_cmp c xs)"
proof (induction xs)
  case Nil
  then show ?case by simp
next
  case (Cons x xs)
  then have "sorted_wrt (\<lambda>a b. c a b \<le> 0) (sort_cmp c xs)" by simp
  then show ?case
    using sorted_insert_cmp[of c S x "sort_cmp c xs"] Cons.prems by (simp add: set_sort_cmp)
qed

lemma stable_insert_cmp:
  assumes "consistent c S" "a \<in> S" "x \<in> S" "set xs \<subseteq> S"
  shows "filter (\<lambda>t. c a t = 0) (insert_cmp c x xs) = filter (\<lambda>t. c a t = 0) (x # xs)"
  using assms(4)
proof (induction xs)
  case Nil
  then show ?case by simp
next
  case (Cons y ys)
  show ?case
  proof (cases "c x y \<le> 0")
    case True
    then show ?thesis by simp
  next
    case False
    have "\<not> (c a x = 0 \<and> c a y = 0)"
    proof
      assume h: "c a x = 0 \<and> c a y = 0"
      then have "c x a = 0" using consistent_sym[OF assms(1), of a x] assms(2,3) by simp
      then have "c x y \<le> 0"
        using consistent_trans[OF assms(1), of x a y] assms(2,3) Cons.prems h by simp
      with False show False by simp
    qed
    with False Cons show ?thesis by auto
  qed
qed

lemma stable_sort_cmp:
  "consistent c S \<Longrightarrow> a \<in> S \<Longrightarrow> set xs \<subseteq> S \<Longrightarrow>
   filter (\<lambda>t. c a t = 0) (sort_cmp c xs) = filter (\<lambda>t. c a t = 0) xs"
  by (induction xs) (simp_all add: stable_insert_cmp set_sort_cmp)

lemma sorted_stable_unique:
  assumes "consistent c S"
  shows "set ys \<subseteq> S \<Longrightarrow> set zs \<subseteq> S \<Longrightarrow>
    sorted_wrt (\<lambda>a b. c a b \<le> 0) ys \<Longrightarrow> sorted_wrt (\<lambda>a b. c a b \<le> 0) zs \<Longrightarrow>
    (\<forall>a\<in>S. filter (\<lambda>t. c a t = 0) ys = filter (\<lambda>t. c a t = 0) zs) \<Longrightarrow> ys = zs"
proof (induction ys arbitrary: zs)
  case Nil
  show ?case
  proof (cases zs)
    case Nil
    then show ?thesis by simp
  next
    case (Cons z zs')
    then have "z \<in> S" using Nil.prems by simp
    then have "filter (\<lambda>t. c z t = 0) [] = filter (\<lambda>t. c z t = 0) zs" using Nil.prems by blast
    then show ?thesis using Cons consistent_refl[OF assms \<open>z \<in> S\<close>] by simp
  qed
next
  case (Cons y ys')
  have yS: "y \<in> S" using Cons.prems by simp
  have cyy: "c y y = 0" using consistent_refl[OF assms yS] .
  have fy: "filter (\<lambda>t. c y t = 0) (y # ys') = filter (\<lambda>t. c y t = 0) zs"
    using Cons.prems yS by blast
  then obtain z zs' where zs: "zs = z # zs'"
    using cyy by (cases zs) auto
  have zS: "z \<in> S" using Cons.prems zs by simp
  have czz: "c z z = 0" using consistent_refl[OF assms zS] .
  have "y \<in> set zs"
  proof -
    have "y \<in> set (filter (\<lambda>t. c y t = 0) (y # ys'))" using cyy by simp
    then have "y \<in> set (filter (\<lambda>t. c y t = 0) zs)" unfolding fy .
    then show ?thesis using filter_is_subset[of "\<lambda>t. c y t = 0" zs] by blast
  qed
  then have zy: "c z y \<le> 0" using Cons.prems(4) zs czz by auto
  have fz: "filter (\<lambda>t. c z t = 0) (y # ys') = filter (\<lambda>t. c z t = 0) (z # zs')"
    using Cons.prems zS zs by blast
  then have "z \<in> set (y # ys')"
  proof -
    have "z \<in> set (filter (\<lambda>t. c z t = 0) (z # zs'))" using czz by simp
    then have "z \<in> set (filter (\<lambda>t. c z t = 0) (y # ys'))" unfolding fz .
    then show ?thesis using filter_is_subset[of "\<lambda>t. c z t = 0" "y # ys'"] by blast
  qed
  then have yz: "c y z \<le> 0" using Cons.prems(3) cyy by auto
  have "c y z = 0"
  proof (rule ccontr)
    assume "c y z \<noteq> 0"
    with yz have "c y z < 0" by simp
    then have "0 < c z y" using assms yS zS unfolding consistent_def by blast
    with zy show False by simp
  qed
  with fy zs cyy have "y = z" by simp
  have "ys' = zs'"
  proof (rule Cons.IH)
    show "set ys' \<subseteq> S" using Cons.prems by simp
    show "set zs' \<subseteq> S" using Cons.prems zs by simp
    show "sorted_wrt (\<lambda>a b. c a b \<le> 0) ys'" using Cons.prems by simp
    show "sorted_wrt (\<lambda>a b. c a b \<le> 0) zs'" using Cons.prems zs by simp
    show "\<forall>a\<in>S. filter (\<lambda>t. c a t = 0) ys' = filter (\<lambda>t. c a t = 0) zs'"
    proof
      fix a assume "a \<in> S"
      then have "filter (\<lambda>t. c a t = 0) (y # ys') = filter (\<lambda>t. c a t = 0) (z # zs')"
        using Cons.prems zs by blast
      with \<open>y = z\<close> show "filter (\<lambda>t. c a t = 0) ys' = filter (\<lambda>t. c a t = 0) zs'"
        by (simp split: if_splits)
    qed
  qed
  with \<open>y = z\<close> zs show ?case by simp
qed

lemma sort_cmp_unique:
  assumes "consistent c S" "set xs \<subseteq> S" "set ys = set xs"
    "sorted_wrt (\<lambda>a b. c a b \<le> 0) ys"
    "\<forall>a\<in>S. filter (\<lambda>t. c a t = 0) ys = filter (\<lambda>t. c a t = 0) xs"
  shows "ys = sort_cmp c xs"
proof (rule sorted_stable_unique[OF assms(1)])
  show "set ys \<subseteq> S" using assms by simp
  show "set (sort_cmp c xs) \<subseteq> S" using assms by (simp add: set_sort_cmp)
  show "sorted_wrt (\<lambda>a b. c a b \<le> 0) ys" by fact
  show "sorted_wrt (\<lambda>a b. c a b \<le> 0) (sort_cmp c xs)"
    using sorted_sort_cmp[OF assms(1,2)] .
  show "\<forall>a\<in>S. filter (\<lambda>t. c a t = 0) ys = filter (\<lambda>t. c a t = 0) (sort_cmp c xs)"
    using assms stable_sort_cmp[OF assms(1) _ assms(2)] by simp
qed

section \<open>The concrete platform reads back what it writes\<close>

lemma expect_append: "expect p (p @ s) = Some s"
  by (induction p) auto

lemma dquote_neq_backslash: "dquote \<noteq> backslash"
  by (simp add: dquote_def backslash_def)

lemma read_chars_escape: "read_chars (escape s @ dquote # rest) = Some (s, rest)"
  using dquote_neq_backslash by (induction s) auto

lemma read_string_json_string: "read_string (json_string s @ rest) = Some (s, rest)"
  by (simp add: read_string_def json_string_def read_chars_escape)

lemma of_char_digit: "d < 10 \<Longrightarrow> (of_char (char_of (48 + d :: nat)) :: nat) = 48 + d"
  by simp

lemma nat_of_digits_snoc:
  "nat_of_digits (ds @ [c]) = 10 * nat_of_digits ds + (of_char c - 48)"
  by (simp add: nat_of_digits_def)

lemma json_nat_digits:
  "list_all is_digit (json_nat n) \<and> json_nat n \<noteq> [] \<and> nat_of_digits (json_nat n) = n"
proof (induction n rule: json_nat.induct)
  case (1 n)
  show ?case
  proof (cases "n < 10")
    case True
    then show ?thesis
      by (simp add: json_nat.simps [of n] is_digit_def nat_of_digits_def)
  next
    case False
    have d: "n mod 10 < 10" by simp
    from False 1 have ih: "list_all is_digit (json_nat (n div 10))"
      "nat_of_digits (json_nat (n div 10)) = n div 10" by simp_all
    have "is_digit (char_of (48 + n mod 10))"
      unfolding is_digit_def of_char_digit [OF d] by simp
    moreover have "nat_of_digits (json_nat (n div 10) @ [char_of (48 + n mod 10)]) = n"
      unfolding nat_of_digits_snoc ih(2) of_char_digit [OF d] by simp
    ultimately show ?thesis
      using False ih(1) by (simp add: json_nat.simps [of n])
  qed
qed

lemma read_nat_json_nat:
  assumes "\<not> is_digit c"
  shows "read_nat (json_nat n @ c # rest) = Some (n, c # rest)"
proof -
  have all: "\<And>x. x \<in> set (json_nat n) \<Longrightarrow> is_digit x"
    using json_nat_digits [of n] by (simp add: list_all_iff)
  have "takeWhile is_digit (json_nat n @ c # rest) = json_nat n"
    using all assms by (simp add: takeWhile_append2)
  moreover have "dropWhile is_digit (json_nat n @ c # rest) = c # rest"
    using all assms by (simp add: dropWhile_append2)
  ultimately show ?thesis
    using json_nat_digits [of n] by (simp add: read_nat_def)
qed

lemma read_status_name: "read_status (status_name s) = Some s"
  by (cases s) (simp_all add: read_status_def status_name_def)

lemma read_task_json_task: "read_task (json_task t @ rest) = Some (t, rest)"
proof -
  have b: "\<not> is_digit CHR ''}''"
    by (simp add: is_digit_def)
  show ?thesis
    by (simp add: read_task_def json_task_def expect_append read_string_json_string
        read_nat_json_nat [OF b] read_status_name)
qed

lemma json_task_nonempty: "json_task t \<noteq> []"
  by (simp add: json_task_def)

lemma json_items_nonempty: "ts \<noteq> [] \<Longrightarrow> json_items ts \<noteq> []"
  by (induction ts rule: json_items.induct) (simp_all add: json_task_nonempty)

lemma length_json_items: "length ts \<le> length (json_items ts)"
proof (induction ts rule: json_items.induct)
  case 1
  then show ?case by simp
next
  case (2 t)
  then show ?case using json_task_nonempty [of t] by (cases "json_task t") simp_all
next
  case (3 t v va)
  then show ?case by simp
qed

lemma read_items_json_items:
  "ts \<noteq> [] \<Longrightarrow> length ts \<le> k \<Longrightarrow> read_items k (json_items ts @ '']'') = Some ts"
proof (induction ts arbitrary: k rule: json_items.induct)
  case 1
  then show ?case by simp
next
  case (2 t)
  then obtain k' where "k = Suc k'" by (cases k) auto
  then show ?case by (simp add: read_task_json_task)
next
  case (3 t v va)
  then obtain k' where k: "k = Suc k'" "length (v # va) \<le> k'" by (cases k) auto
  from 3 k have "read_items k' (json_items (v # va) @ '']'') = Some (v # va)" by simp
  then show ?case using k by (simp add: read_task_json_task)
qed

lemma read_tasks_json_tasks: "read_tasks (json_tasks ts) = Some ts"
proof (cases ts)
  case Nil
  then show ?thesis by (simp add: read_tasks_def json_tasks_def)
next
  case (Cons t ts')
  then have ne: "ts \<noteq> []" by simp
  have "length ts \<le> length (json_items ts @ '']'')"
    using length_json_items [of ts] by simp
  then have "read_items (length (json_items ts @ '']'')) (json_items ts @ '']'') = Some ts"
    using read_items_json_items [OF ne] by blast
  moreover have "json_items ts @ '']'' \<noteq> '']''"
    using json_items_nonempty [OF ne] by simp
  ultimately show ?thesis
    by (simp add: read_tasks_def json_tasks_def)
qed

lemma browser_json_roundtrip:
  "JSON_parse browser (JSON_stringify browser ts) = Some ts"
  by (simp add: browser_def read_tasks_json_tasks)

lemma browser_json_nonempty: "JSON_stringify browser ts \<noteq> []"
  by (simp add: browser_def json_tasks_def)

section \<open>The store and the save effect\<close>

lemma storage_after_save:
  "localStorage (saveTasks P ts e) storage_key = Some (JSON_stringify P ts)"
  by (simp add: saveTasks_def)

lemma window_after_save: "window_defined (saveTasks P ts e) = window_defined e"
  by (simp add: saveTasks_def)

lemma getTasks_stored:
  assumes "window_defined e" and "localStorage e storage_key = Some s"
    and "s \<noteq> []" and "JSON_parse P s = Some ts"
  shows "getTasks P e = Inr ts"
  using assms by (simp add: getTasks_def)

lemma getTasks_browser_saved:
  "window_defined e \<Longrightarrow> getTasks browser (saveTasks browser ts e) = Inr ts"
  using getTasks_stored [of "saveTasks browser ts e" "JSON_stringify browser ts" browser ts]
  by (simp add: storage_after_save window_after_save browser_json_roundtrip browser_json_nonempty)

lemma handler_total: "\<exists>st'. handler m st = Inr st'"
  by (cases m) (simp_all add: handleSaveTask_def toggleStatus_def deleteTask_def)

subsection \<open>Round trip (C9)\<close>

text \<open>
  C9: in the browser (\<^verbatim>\<open>window\<close> is defined), \<^verbatim>\<open>saveTasks\<close> followed by \<^verbatim>\<open>getTasks\<close> returns
  the collection that was saved, the same tasks in the same order with the same
  fields, and nothing is thrown. What \<^verbatim>\<open>page.tsx\<close> adds to the platform is the key, which
  is the same in both functions, and the test \<^verbatim>\<open>stored ? ... : []\<close>, which lets every
  non-empty text through. That \<^verbatim>\<open>JSON.parse\<close> gives back what \<^verbatim>\<open>JSON.stringify\<close> was
  given, and that the text of an array is never empty, are properties of the platform
  and the hypotheses here. With nothing stored under the key, \<^verbatim>\<open>getTasks\<close> returns the
  empty array, not an error.
\<close>

theorem save_load_roundtrip:
  "(window_defined e \<and> JSON_stringify P ts \<noteq> [] \<and> JSON_parse P (JSON_stringify P ts) = Some ts
      \<longrightarrow> getTasks P (saveTasks P ts e) = Inr ts)
   \<and> (localStorage e storage_key = None \<longrightarrow> getTasks P e = Inr [])"
proof -
  have "getTasks P (saveTasks P ts e) = Inr ts"
    if "window_defined e" "JSON_stringify P ts \<noteq> []"
      "JSON_parse P (JSON_stringify P ts) = Some ts"
    using that getTasks_stored [of "saveTasks P ts e" "JSON_stringify P ts" P ts]
    by (simp add: storage_after_save window_after_save)
  moreover have "getTasks P e = Inr []" if "localStorage e storage_key = None"
    using that by (simp add: getTasks_def)
  ultimately show ?thesis by blast
qed

text \<open>
  The theorem of C9 on the concrete platform, whose reader gives back every array of
  tasks that was written, and on the empty storage.
\<close>

theorem save_load_roundtrip_witness:
  "window_defined empty_env
   \<and> JSON_stringify browser [task_report, task_milk] \<noteq> []
   \<and> JSON_parse browser (JSON_stringify browser [task_report, task_milk])
       = Some [task_report, task_milk]
   \<and> getTasks browser (saveTasks browser [task_report, task_milk] empty_env)
       = Inr [task_report, task_milk]
   \<and> localStorage empty_env storage_key = None
   \<and> getTasks browser empty_env = Inr []"
proof -
  have w: "window_defined empty_env" and n: "localStorage empty_env storage_key = None"
    by (simp_all add: empty_env_def)
  from save_load_roundtrip [of empty_env browser "[task_report, task_milk]"]
    w n browser_json_roundtrip [of "[task_report, task_milk]"]
    browser_json_nonempty [of "[task_report, task_milk]"]
  show ?thesis by simp
qed

subsection \<open>Saving after a mutation (C1)\<close>

text \<open>
  Against C1: the storage holds the one task of the collection; the task is deleted.
  The collection in memory is empty, but the guard \<^verbatim>\<open>tasks.length > 0\<close> of the effect
  skips \<^verbatim>\<open>saveTasks\<close>: the storage is what it was, still the text of the deleted task
  and not the text of the empty array, and \<^verbatim>\<open>getTasks\<close> returns the deleted task; the
  load effect of the next visit puts it back into the collection.
\<close>

theorem save_skipped_counterexample:
  "step browser (Delete ''b2'') (state_of [task_milk], saveTasks browser [task_milk] empty_env)
     = Inr (state_of [], saveTasks browser [task_milk] empty_env)
   \<and> tasks (state_of []) = []
   \<and> localStorage (saveTasks browser [task_milk] empty_env) storage_key
       = Some (JSON_stringify browser [task_milk])
   \<and> JSON_stringify browser [task_milk] \<noteq> JSON_stringify browser []
   \<and> getTasks browser (saveTasks browser [task_milk] empty_env) = Inr [task_milk]
   \<and> [task_milk] \<noteq> tasks (state_of [])
   \<and> load_effect browser (saveTasks browser [task_milk] empty_env) initial_state
       = Inr (state_of [task_milk])"
proof -
  have "step browser (Delete ''b2'') (state_of [task_milk], saveTasks browser [task_milk] empty_env)
     = Inr (state_of [], saveTasks browser [task_milk] empty_env)"
    by (simp add: step_def deleteTask_def save_effect_def scenario_defs)
  moreover have "JSON_stringify browser [task_milk] \<noteq> JSON_stringify browser []"
    by (simp add: browser_def json_tasks_def json_task_def)
  moreover have "getTasks browser (saveTasks browser [task_milk] empty_env) = Inr [task_milk]"
    by (rule getTasks_browser_saved) (simp add: empty_env_def)
  ultimately show ?thesis
    by (simp add: storage_after_save load_effect_def state_of_def initial_state_def)
qed

text \<open>
  C1, as the code has it: every mutation (create and update through the submit
  handler, toggle, delete) succeeds; when the collection after it is not empty, the
  save effect stores the text of that whole collection under the key, and in the
  browser, with a platform that reads back what it wrote, \<^verbatim>\<open>getTasks\<close> returns exactly
  the collection in memory.
\<close>

theorem save_after_mutation:
  "\<exists>st' e'. step P m (st, e) = Inr (st', e')
      \<and> handler m st = Inr st'
      \<and> (tasks st' \<noteq> [] \<longrightarrow>
            localStorage e' storage_key = Some (JSON_stringify P (tasks st'))
          \<and> (window_defined e \<and> JSON_stringify P (tasks st') \<noteq> []
               \<and> JSON_parse P (JSON_stringify P (tasks st')) = Some (tasks st')
             \<longrightarrow> getTasks P e' = Inr (tasks st')))"
proof -
  from handler_total obtain st' where h: "handler m st = Inr st'" by blast
  let ?e' = "save_effect P st' e"
  have s: "step P m (st, e) = Inr (st', ?e')"
    using h by (simp add: step_def)
  have "localStorage ?e' storage_key = Some (JSON_stringify P (tasks st'))"
    if "tasks st' \<noteq> []"
    using that by (simp add: save_effect_def storage_after_save)
  moreover have "getTasks P ?e' = Inr (tasks st')"
    if "tasks st' \<noteq> []" "window_defined e" "JSON_stringify P (tasks st') \<noteq> []"
      "JSON_parse P (JSON_stringify P (tasks st')) = Some (tasks st')"
  proof -
    have "?e' = saveTasks P (tasks st') e"
      using that(1) by (simp add: save_effect_def)
    then show ?thesis
      using that getTasks_stored [of "saveTasks P (tasks st') e" "JSON_stringify P (tasks st')" P "tasks st'"]
      by (simp add: storage_after_save window_after_save)
  qed
  ultimately show ?thesis using s h by blast
qed

text \<open>
  The theorem of C1 where the only task of the collection is toggled, and where a task
  is created in front of two others.
\<close>

theorem save_after_mutation_witness:
  "(\<exists>st' e'. step browser (Toggle ''b2'') (state_of [task_milk], empty_env) = Inr (st', e')
      \<and> tasks st' = [task_milk\<lparr>status := Pending\<rparr>] \<and> tasks st' \<noteq> []
      \<and> window_defined empty_env \<and> JSON_stringify browser (tasks st') \<noteq> []
      \<and> JSON_parse browser (JSON_stringify browser (tasks st')) = Some (tasks st')
      \<and> localStorage e' storage_key = Some (JSON_stringify browser (tasks st'))
      \<and> getTasks browser e' = Inr (tasks st'))
   \<and> (\<exists>st' e'. step browser (Save ''c3'' 1735689800000 ''Alpha task'' ''2025-01-20'')
                  (state_of [task_report, task_milk], empty_env) = Inr (st', e')
      \<and> tasks st' = [task_alpha, task_report, task_milk]
      \<and> localStorage e' storage_key
          = Some (JSON_stringify browser [task_alpha, task_report, task_milk])
      \<and> getTasks browser e' = Inr [task_alpha, task_report, task_milk])"
proof -
  have w: "window_defined empty_env" by (simp add: empty_env_def)
  have first: "\<exists>st' e'. step browser (Toggle ''b2'') (state_of [task_milk], empty_env) = Inr (st', e')
      \<and> tasks st' = [task_milk\<lparr>status := Pending\<rparr>] \<and> tasks st' \<noteq> []
      \<and> window_defined empty_env \<and> JSON_stringify browser (tasks st') \<noteq> []
      \<and> JSON_parse browser (JSON_stringify browser (tasks st')) = Some (tasks st')
      \<and> localStorage e' storage_key = Some (JSON_stringify browser (tasks st'))
      \<and> getTasks browser e' = Inr (tasks st')"
  proof -
    from save_after_mutation [of browser "Toggle ''b2''" "state_of [task_milk]" empty_env]
    obtain st' e' where
      r: "step browser (Toggle ''b2'') (state_of [task_milk], empty_env) = Inr (st', e')"
      "handler (Toggle ''b2'') (state_of [task_milk]) = Inr st'"
      "tasks st' \<noteq> [] \<longrightarrow>
         localStorage e' storage_key = Some (JSON_stringify browser (tasks st'))
         \<and> (window_defined empty_env \<and> JSON_stringify browser (tasks st') \<noteq> []
               \<and> JSON_parse browser (JSON_stringify browser (tasks st')) = Some (tasks st')
             \<longrightarrow> getTasks browser e' = Inr (tasks st'))"
      by blast
    from r(2) have t: "tasks st' = [task_milk\<lparr>status := Pending\<rparr>]"
      by (auto simp: toggleStatus_def scenario_defs)
    from r(1,3) t w browser_json_roundtrip [of "tasks st'"] browser_json_nonempty [of "tasks st'"]
    show ?thesis by auto
  qed
  have second: "\<exists>st' e'. step browser (Save ''c3'' 1735689800000 ''Alpha task'' ''2025-01-20'')
                  (state_of [task_report, task_milk], empty_env) = Inr (st', e')
      \<and> tasks st' = [task_alpha, task_report, task_milk]
      \<and> localStorage e' storage_key
          = Some (JSON_stringify browser [task_alpha, task_report, task_milk])
      \<and> getTasks browser e' = Inr [task_alpha, task_report, task_milk]"
  proof -
    let ?m = "Save ''c3'' 1735689800000 ''Alpha task'' ''2025-01-20''"
    from save_after_mutation [of browser ?m "state_of [task_report, task_milk]" empty_env]
    obtain st' e' where
      r: "step browser ?m (state_of [task_report, task_milk], empty_env) = Inr (st', e')"
      "handler ?m (state_of [task_report, task_milk]) = Inr st'"
      "tasks st' \<noteq> [] \<longrightarrow>
         localStorage e' storage_key = Some (JSON_stringify browser (tasks st'))
         \<and> (window_defined empty_env \<and> JSON_stringify browser (tasks st') \<noteq> []
               \<and> JSON_parse browser (JSON_stringify browser (tasks st')) = Some (tasks st')
             \<longrightarrow> getTasks browser e' = Inr (tasks st'))"
      by blast
    from r(2) have t: "tasks st' = [task_alpha, task_report, task_milk]"
      by (auto simp: handleSaveTask_def closeModal_def newTask_def scenario_defs)
    from r(1,3) t w browser_json_roundtrip [of "tasks st'"] browser_json_nonempty [of "tasks st'"]
    show ?thesis by auto
  qed
  from first second show ?thesis by blast
qed

section \<open>The comparison functions of \<^verbatim>\<open>filteredTasks\<close>\<close>

lemma consistent_date:
  assumes "\<forall>t\<in>S. getTime P (dueDate t) \<noteq> None"
  shows "consistent (compareTasks P SortDate) S"
  unfolding consistent_def
proof (intro ballI)
  fix a b d assume "a \<in> S" "b \<in> S" "d \<in> S"
  with assms obtain x y z where
    "getTime P (dueDate a) = Some x" "getTime P (dueDate b) = Some y"
    "getTime P (dueDate d) = Some z"
    by fastforce
  then have "compareTasks P SortDate a a = x - x" "compareTasks P SortDate a b = x - y"
    "compareTasks P SortDate b a = y - x" "compareTasks P SortDate b d = y - z"
    "compareTasks P SortDate a d = x - z"
    by (simp_all add: compareTasks_def)
  then show "compareTasks P SortDate a a = 0
      \<and> (compareTasks P SortDate a b < 0 \<longleftrightarrow> 0 < compareTasks P SortDate b a)
      \<and> (compareTasks P SortDate a b \<le> 0 \<and> compareTasks P SortDate b d \<le> 0
           \<longrightarrow> compareTasks P SortDate a d \<le> 0)"
    by simp
qed

lemma date_le_iff:
  assumes "getTime P (dueDate a) \<noteq> None" "getTime P (dueDate b) \<noteq> None"
  shows "date_le P a b \<longleftrightarrow> compareTasks P SortDate a b \<le> 0"
  using assms by (auto simp: date_le_def compareTasks_def)

lemma date_class_iff:
  assumes "getTime P (dueDate a) \<noteq> None" "getTime P (dueDate t) \<noteq> None"
  shows "compareTasks P SortDate a t = 0 \<longleftrightarrow> getTime P (dueDate t) = getTime P (dueDate a)"
  using assms by (auto simp: compareTasks_def)

lemma code_compare_refl: "code_compare a a = 0"
  by (induction a) auto

lemma code_compare_flip: "code_compare a b < 0 \<longleftrightarrow> 0 < code_compare b a"
  by (induction a b rule: code_compare.induct) auto

lemma code_compare_Cons_le:
  "code_compare (x # xs) (y # ys) \<le> 0 \<longleftrightarrow>
     (of_char x :: nat) < of_char y \<or> ((of_char x :: nat) = of_char y \<and> code_compare xs ys \<le> 0)"
  by auto

lemma code_compare_trans:
  "code_compare a b \<le> 0 \<Longrightarrow> code_compare b d \<le> 0 \<Longrightarrow> code_compare a d \<le> 0"
proof (induction a arbitrary: b d)
  case Nil
  then show ?case by (cases d) simp_all
next
  case (Cons x xs)
  from Cons.prems(1) obtain y ys where b: "b = y # ys" by (cases b) auto
  from Cons.prems(2) b obtain z zs where d: "d = z # zs" by (cases d) auto
  from Cons.prems(1) have
    xy: "(of_char x :: nat) < of_char y \<or> ((of_char x :: nat) = of_char y \<and> code_compare xs ys \<le> 0)"
    unfolding b code_compare_Cons_le .
  from Cons.prems(2) have
    yz: "(of_char y :: nat) < of_char z \<or> ((of_char y :: nat) = of_char z \<and> code_compare ys zs \<le> 0)"
    unfolding b d code_compare_Cons_le .
  have "(of_char x :: nat) < of_char z \<or> ((of_char x :: nat) = of_char z \<and> code_compare xs zs \<le> 0)"
  proof (cases "(of_char x :: nat) = of_char y \<and> (of_char y :: nat) = of_char z")
    case True
    with xy yz have "code_compare xs ys \<le> 0" "code_compare ys zs \<le> 0" by simp_all
    then have "code_compare xs zs \<le> 0" by (rule Cons.IH)
    with True show ?thesis by simp
  next
    case False
    with xy yz have "(of_char x :: nat) < of_char z" by linarith
    then show ?thesis by simp
  qed
  then show ?case unfolding d code_compare_Cons_le .
qed

lemma consistent_code_compare: "consistent code_compare S"
  unfolding consistent_def
proof (intro ballI conjI impI)
  fix a b d :: string
  show "code_compare a a = 0" by (rule code_compare_refl)
  show "code_compare a b < 0 \<longleftrightarrow> 0 < code_compare b a" by (rule code_compare_flip)
  assume "code_compare a b \<le> 0 \<and> code_compare b d \<le> 0"
  then show "code_compare a d \<le> 0" using code_compare_trans by blast
qed

lemma consistent_browser: "consistent (localeCompare browser) S"
  by (simp add: browser_def consistent_code_compare)

lemma consistent_name:
  assumes "consistent (localeCompare P) (title ` S)"
  shows "consistent (compareTasks P SortName) S"
proof -
  have c: "compareTasks P SortName a b = localeCompare P (title a) (title b)" for a b
    by (simp add: compareTasks_def)
  show ?thesis
    unfolding consistent_def c
  proof (intro ballI)
    fix a b d assume "a \<in> S" "b \<in> S" "d \<in> S"
    then have "title a \<in> title ` S" "title b \<in> title ` S" "title d \<in> title ` S"
      by blast+
    with assms show "localeCompare P (title a) (title a) = 0
      \<and> (localeCompare P (title a) (title b) < 0 \<longleftrightarrow> 0 < localeCompare P (title b) (title a))
      \<and> (localeCompare P (title a) (title b) \<le> 0 \<and> localeCompare P (title b) (title d) \<le> 0
           \<longrightarrow> localeCompare P (title a) (title d) \<le> 0)"
      unfolding consistent_def by blast
  qed
qed

lemma array_sort_consistent:
  "consistent c S \<Longrightarrow> set xs \<subseteq> S \<Longrightarrow> array_sort P c xs = sort_cmp c xs"
  using consistent_subset [of c S "set xs"] by (simp add: array_sort_def)

text \<open>
  Whatever order an engine picks: a list of two or more tasks of which one has a due
  date that is no date is not in ascending order of the due dates.
\<close>

lemma invalid_date_never_ordered:
  assumes "x \<in> set ys" and "getTime P (dueDate x) = None" and "2 \<le> length ys"
  shows "\<not> sorted_wrt (date_le P) ys"
proof
  assume s: "sorted_wrt (date_le P) ys"
  from assms(1) obtain as bs where ys: "ys = as @ x # bs"
    by (meson split_list)
  have nx: "\<not> date_le P a x" "\<not> date_le P x a" for a
    using assms(2) by (simp_all add: date_le_def split: option.splits)
  show False
  proof (cases as)
    case Nil
    with ys assms(3) obtain b bs' where "bs = b # bs'" by (cases bs) auto
    with s ys Nil have "date_le P x b" by simp
    with nx show False by simp
  next
    case (Cons a as')
    with s ys have "date_le P a x" by (simp add: sorted_wrt_append)
    with nx show False by simp
  qed
qed

subsection \<open>Order of the visible list (C8)\<close>

text \<open>
  Against C8: the collection holds a task due on January 10, a task whose due date is
  the text \<^verbatim>\<open>tomorrow\<close>, and a task due on January 5, in this order (read from the
  storage, whose contents are not checked). The comparison with the middle task is
  \<^verbatim>\<open>NaN\<close>, the comparison function is not consistent, and the engine leaves the array
  as it is: under the sort key date the task due on January 10 stands before the task
  due on January 5.
\<close>

theorem date_order_counterexample:
  "getTasks browser (saveTasks browser [task_report, task_bank, task_milk] empty_env)
     = Inr [task_report, task_bank, task_milk]
   \<and> sortBy (state_of [task_report, task_bank, task_milk]) = SortDate
   \<and> filteredTasks browser [] (state_of [task_report, task_bank, task_milk])
     = [task_report, task_bank, task_milk]
   \<and> getTime browser (dueDate task_report) = Some 1736467200000
   \<and> getTime browser (dueDate task_bank) = None
   \<and> getTime browser (dueDate task_milk) = Some 1736035200000
   \<and> \<not> date_le browser task_report task_milk
   \<and> \<not> sorted_wrt (date_le browser)
         (filteredTasks browser [] (state_of [task_report, task_bank, task_milk]))"
proof -
  have l: "getTasks browser (saveTasks browser [task_report, task_bank, task_milk] empty_env)
     = Inr [task_report, task_bank, task_milk]"
    by (rule getTasks_browser_saved) (simp add: empty_env_def)
  have f: "filteredTasks browser [] (state_of [task_report, task_bank, task_milk])
     = [task_report, task_bank, task_milk]"
    by code_simp
  have g: "getTime browser (dueDate task_report) = Some 1736467200000"
    "getTime browser (dueDate task_bank) = None"
    "getTime browser (dueDate task_milk) = Some 1736035200000"
    by code_simp+
  have d: "\<not> date_le browser task_report task_milk"
    by (simp add: date_le_def g)
  from l f g d show ?thesis
    by (simp add: scenario_defs)
qed

text \<open>
  C8, as the code has it: for every collection in which every due date is a valid
  date, and all view parameters, \<^verbatim>\<open>filteredTasks\<close> is a permutation of the tasks that
  pass the filter. With the sort key date it is ordered by ascending time of the due
  date, earliest first, and with the sort key name by ascending \<^verbatim>\<open>localeCompare\<close> of the
  titles. The sort is stable: the tasks with one and the same key (the same time of
  the due date; titles that \<^verbatim>\<open>localeCompare\<close> takes for equal) stand in the visible list
  in the order they have in the filtered collection, which is their order in the
  collection. That \<^verbatim>\<open>localeCompare\<close> is a consistent comparison on the titles is what the
  language standard requires of \<^verbatim>\<open>localeCompare\<close> itself.
\<close>

theorem filteredTasks_sorted_stable:
  assumes "sortBy st = SortDate \<longrightarrow> (\<forall>t\<in>set (tasks st). getTime P (dueDate t) \<noteq> None)"
    and "sortBy st = SortName \<longrightarrow> consistent (localeCompare P) (title ` set (tasks st))"
  shows "mset (filteredTasks P q st) = mset (filter (matches P q st) (tasks st))
    \<and> (sortBy st = SortDate \<longrightarrow>
          sorted_wrt (date_le P) (filteredTasks P q st)
        \<and> (\<forall>k. filter (\<lambda>t. getTime P (dueDate t) = k) (filteredTasks P q st)
                = filter (\<lambda>t. getTime P (dueDate t) = k) (filter (matches P q st) (tasks st))))
    \<and> (sortBy st = SortName \<longrightarrow>
          sorted_wrt (name_le P) (filteredTasks P q st)
        \<and> (\<forall>a\<in>set (tasks st).
              filter (\<lambda>t. localeCompare P (title a) (title t) = 0) (filteredTasks P q st)
                = filter (\<lambda>t. localeCompare P (title a) (title t) = 0)
                    (filter (matches P q st) (tasks st))))"
proof -
  let ?S = "set (tasks st)"
  let ?flt = "filter (matches P q st) (tasks st)"
  let ?vis = "filteredTasks P q st"
  let ?c = "compareTasks P (sortBy st)"
  have sub: "set ?flt \<subseteq> ?S" by auto
  have con: "consistent ?c ?S"
  proof (cases "sortBy st")
    case SortDate
    with assms(1) show ?thesis using consistent_date [of ?S P] by simp
  next
    case SortName
    with assms(2) show ?thesis using consistent_name [of P ?S] by simp
  qed
  have vis: "?vis = sort_cmp ?c ?flt"
    using array_sort_consistent [OF con sub] by (simp add: filteredTasks_def)
  have setvis: "set ?vis = set ?flt" by (simp add: vis set_sort_cmp)
  have perm: "mset ?vis = mset ?flt" by (simp add: vis mset_sort_cmp)
  have date: "sorted_wrt (date_le P) ?vis
        \<and> (\<forall>k. filter (\<lambda>t. getTime P (dueDate t) = k) ?vis
                = filter (\<lambda>t. getTime P (dueDate t) = k) ?flt)"
    if d: "sortBy st = SortDate"
  proof -
    from d assms(1) have some: "\<forall>t\<in>?S. getTime P (dueDate t) \<noteq> None" by simp
    have "sorted_wrt (\<lambda>a b. ?c a b \<le> 0) ?vis"
      unfolding vis using sorted_sort_cmp [OF con sub] .
    then have s: "sorted_wrt (date_le P) ?vis"
    proof (rule sorted_wrt_mono_rel [rotated])
      fix a b assume "a \<in> set ?vis" "b \<in> set ?vis" "?c a b \<le> 0"
      then show "date_le P a b"
        using some setvis sub d date_le_iff [of P a b] by auto
    qed
    have "filter (\<lambda>t. getTime P (dueDate t) = k) ?vis
            = filter (\<lambda>t. getTime P (dueDate t) = k) ?flt" for k
    proof (cases "\<exists>a\<in>set ?flt. getTime P (dueDate a) = k")
      case True
      then obtain a where a: "a \<in> set ?flt" "getTime P (dueDate a) = k" by blast
      then have aS: "a \<in> ?S" using sub by blast
      have cls: "?c a t = 0 \<longleftrightarrow> getTime P (dueDate t) = k" if "t \<in> ?S" for t
        using date_class_iff [of P a t] some aS that a(2) d by auto
      have "filter (\<lambda>t. getTime P (dueDate t) = k) ?vis = filter (\<lambda>t. ?c a t = 0) ?vis"
        by (rule filter_cong) (use cls setvis sub in auto)
      also have "\<dots> = filter (\<lambda>t. ?c a t = 0) ?flt"
        unfolding vis using stable_sort_cmp [OF con aS sub] .
      also have "\<dots> = filter (\<lambda>t. getTime P (dueDate t) = k) ?flt"
        by (rule filter_cong) (use cls sub in auto)
      finally show ?thesis .
    next
      case False
      then have "filter (\<lambda>t. getTime P (dueDate t) = k) ?flt = []"
        by (simp add: filter_empty_conv)
      moreover from False setvis have "filter (\<lambda>t. getTime P (dueDate t) = k) ?vis = []"
        by (simp add: filter_empty_conv)
      ultimately show ?thesis by simp
    qed
    with s show ?thesis by blast
  qed
  have name: "sorted_wrt (name_le P) ?vis
        \<and> (\<forall>a\<in>?S. filter (\<lambda>t. localeCompare P (title a) (title t) = 0) ?vis
                = filter (\<lambda>t. localeCompare P (title a) (title t) = 0) ?flt)"
    if n: "sortBy st = SortName"
  proof -
    have c: "?c = (\<lambda>a b. localeCompare P (title a) (title b))"
      using n by (simp add: compareTasks_def fun_eq_iff)
    have "sorted_wrt (\<lambda>a b. ?c a b \<le> 0) ?vis"
      unfolding vis using sorted_sort_cmp [OF con sub] .
    then have s: "sorted_wrt (name_le P) ?vis"
      unfolding name_le_def c .
    have "filter (\<lambda>t. ?c a t = 0) ?vis = filter (\<lambda>t. ?c a t = 0) ?flt" if "a \<in> ?S" for a
      unfolding vis using stable_sort_cmp [OF con that sub] .
    with s show ?thesis unfolding c by blast
  qed
  from perm date name show ?thesis by blast
qed

text \<open>
  The theorem of C8 on the tasks of the specification's scenario and a fourth task
  that has the due date and the title of the second: date order puts \<^verbatim>\<open>Alpha task\<close>
  last and name order puts it first, and the two tasks with equal keys keep their
  order.
\<close>

theorem filteredTasks_sorted_stable_witness:
  "sortBy (state_of [task_report, task_milk, task_alpha, task_beta]) = SortDate
   \<and> list_all (\<lambda>t. getTime browser (dueDate t) \<noteq> None)
        (tasks (state_of [task_report, task_milk, task_alpha, task_beta]))
   \<and> map id_task (filteredTasks browser [] (state_of [task_report, task_milk, task_alpha, task_beta]))
       = [''b2'', ''d4'', ''a1'', ''c3'']
   \<and> sorted_wrt (date_le browser)
        (filteredTasks browser [] (state_of [task_report, task_milk, task_alpha, task_beta]))
   \<and> filter (\<lambda>t. getTime browser (dueDate t) = getTime browser ''2025-01-05'')
        (filteredTasks browser [] (state_of [task_report, task_milk, task_alpha, task_beta]))
       = [task_milk, task_beta]
   \<and> sortBy ((state_of [task_report, task_milk, task_alpha, task_beta])\<lparr>sortBy := SortName\<rparr>) = SortName
   \<and> consistent (localeCompare browser)
        (title ` set (tasks ((state_of [task_report, task_milk, task_alpha, task_beta])\<lparr>sortBy := SortName\<rparr>)))
   \<and> map id_task (filteredTasks browser []
          ((state_of [task_report, task_milk, task_alpha, task_beta])\<lparr>sortBy := SortName\<rparr>))
       = [''c3'', ''b2'', ''d4'', ''a1'']
   \<and> sorted_wrt (name_le browser) (filteredTasks browser []
          ((state_of [task_report, task_milk, task_alpha, task_beta])\<lparr>sortBy := SortName\<rparr>))"
proof -
  let ?W = "state_of [task_report, task_milk, task_alpha, task_beta]"
  let ?N = "?W\<lparr>sortBy := SortName\<rparr>"
  have d: "sortBy ?W = SortDate" and n: "sortBy ?N = SortName"
    by (simp_all add: scenario_defs)
  have p: "\<forall>t\<in>set (tasks ?W). getTime browser (dueDate t) \<noteq> None"
    by code_simp
  have c: "consistent (localeCompare browser) (title ` set (tasks ?N))"
    by (rule consistent_browser)
  have o1: "map id_task (filteredTasks browser [] ?W) = [''b2'', ''d4'', ''a1'', ''c3'']"
    by code_simp
  have o2: "map id_task (filteredTasks browser [] ?N) = [''c3'', ''b2'', ''d4'', ''a1'']"
    by code_simp
  have f: "filter (\<lambda>t. getTime browser (dueDate t) = getTime browser ''2025-01-05'')
             (filter (matches browser [] ?W) (tasks ?W)) = [task_milk, task_beta]"
    by code_simp
  from filteredTasks_sorted_stable [of ?W browser "[]"] d p
  have "sorted_wrt (date_le browser) (filteredTasks browser [] ?W)"
    and "filter (\<lambda>t. getTime browser (dueDate t) = getTime browser ''2025-01-05'')
           (filteredTasks browser [] ?W)
         = filter (\<lambda>t. getTime browser (dueDate t) = getTime browser ''2025-01-05'')
             (filter (matches browser [] ?W) (tasks ?W))"
    by simp_all
  moreover from filteredTasks_sorted_stable [of ?N browser "[]"] n c
  have "sorted_wrt (name_le browser) (filteredTasks browser [] ?N)"
    by simp
  ultimately show ?thesis
    using d n p c o1 o2 f by (simp add: list_all_iff)
qed

end
